theory Spec2Isabelle
  imports Main "HOL-Library.Char_ord" "HOL-Library.List_Lexorder"
begin

section \<open>Data model\<close>

text \<open>
  The routers reported by the proxy and the hostname records derived from them, with the
  fields that \<^verbatim>\<open>class Router(TypedDict)\<close> and \<^verbatim>\<open>class Hostname(TypedDict)\<close> declare.
  The field \<^verbatim>\<open>using\<close> is written \<open>using_\<close>: the plain name is reserved.

  A \<^verbatim>\<open>Router\<close> is built by \<^verbatim>\<open>Router(**entry)\<close>, which checks nothing: it is the mapping
  that the proxy sent. The two keys that a tick reads before it changes anything,
  \<^verbatim>\<open>entryPoints\<close> and \<^verbatim>\<open>rule\<close>, may therefore be absent, and reading an absent key
  raises \<^verbatim>\<open>KeyError\<close>. The key \<^verbatim>\<open>name\<close>, read when a hostname record is stored, is
  taken to be present, as the source route name of a hostname record is in the data
  model; a value that is present is taken to have its declared type.
\<close>

record Router =
  entryPoints :: "string list option"
  service :: string
  rule :: "string option"
  ruleSyntax :: string
  priority :: int
  status :: string
  using_ :: "string list"
  name :: string
  provider :: string

record Hostname =
  hostname :: string
  router :: Router

text \<open>The module-level settings that the functions below read.\<close>

record config =
  TRAEFIK_ENTRYPOINTS :: "string list"
  DNS_SERVER :: string
  DNS_DOMAIN :: string
  TARGET_IP :: string
  UPDATE_INTERVAL :: int

datatype exn =
    Exception "string option"
  | OSError
  | ConnectionError
  | JSONDecodeError
  | TypeError
  | KeyError
  | ValueError
  | OverflowError

definition newline :: char where
  "newline = CHR 0x0A"

definition backtick :: char where
  "backtick = CHR 0x60"

section \<open>Filtering and extraction\<close>

text \<open>
  The comprehension of \<^verbatim>\<open>filter_routers\<close>. For each router, \<^verbatim>\<open>any\<close> runs over the
  configured entry points and reads \<^verbatim>\<open>router["entryPoints"]\<close> for the first of them; with
  no configured entry point nothing is read and the router is dropped.
\<close>

fun filter_routers :: "config \<Rightarrow> Router list \<Rightarrow> exn + Router list" where
  "filter_routers cfg [] = Inr []"
| "filter_routers cfg (r # routers) =
     (if TRAEFIK_ENTRYPOINTS cfg = [] then filter_routers cfg routers
      else (case entryPoints r of
              None \<Rightarrow> Inl KeyError
            | Some eps \<Rightarrow>
                (case filter_routers cfg routers of
                   Inl ex \<Rightarrow> Inl ex
                 | Inr kept \<Rightarrow>
                     Inr (if list_ex (\<lambda>entryPoint. List.member eps entryPoint)
                               (TRAEFIK_ENTRYPOINTS cfg)
                          then r # kept else kept))))"

text \<open>
  The pattern \<^verbatim>\<open>Host\(`(.+)`\)\<close>. \<open>strip_prefix p s\<close> matches the literal \<open>p\<close> at the
  start of \<open>s\<close> and returns what follows it.
\<close>

fun strip_prefix :: "string \<Rightarrow> string \<Rightarrow> string option" where
  "strip_prefix [] s = Some s"
| "strip_prefix (p # ps) [] = None"
| "strip_prefix (p # ps) (c # cs) = (if p = c then strip_prefix ps cs else None)"

definition host_open :: string where
  "host_open = ''Host('' @ [backtick]"

definition host_close :: string where
  "host_close = [backtick] @ '')''"

text \<open>
  \<open>dot_plus s\<close> is the group \<^verbatim>\<open>(.+)\<close> followed by the closing literal, matched at the
  start of \<open>s\<close> with the backtracking order of a greedy quantifier: a character other
  than the line feed is consumed, then one more repetition is tried first, and only when
  no longer match exists is the closing literal tried at the current position. The result
  is the group and the text after the whole match.
\<close>

fun dot_plus :: "string \<Rightarrow> (string \<times> string) option" where
  "dot_plus [] = None"
| "dot_plus (c # cs) =
     (if c = newline then None
      else (case dot_plus cs of
              Some (g, rest) \<Rightarrow> Some (c # g, rest)
            | None \<Rightarrow> (case strip_prefix host_close cs of
                         Some rest \<Rightarrow> Some ([c], rest)
                       | None \<Rightarrow> None)))"

definition match_here :: "string \<Rightarrow> (string \<times> string) option" where
  "match_here s = (case strip_prefix host_open s of
                     None \<Rightarrow> None
                   | Some after \<Rightarrow> dot_plus after)"

lemma strip_prefix_length:
  "strip_prefix p s = Some r \<Longrightarrow> length s = length p + length r"
  by (induction p s rule: strip_prefix.induct) (auto split: if_splits)

lemma dot_plus_length:
  "dot_plus s = Some (g, r) \<Longrightarrow> length r < length s"
proof (induction s arbitrary: g r)
  case Nil
  then show ?case by simp
next
  case (Cons c cs)
  show ?case
  proof (cases "dot_plus cs")
    case None
    with Cons.prems obtain r' where "strip_prefix host_close cs = Some r'" "r = r'"
      by (auto split: if_splits option.splits)
    then show ?thesis
      using strip_prefix_length [of host_close cs r] by simp
  next
    case (Some a)
    obtain g' r' where a: "a = (g', r')" by (cases a)
    with Some Cons.prems have "r = r'"
      by (auto split: if_splits)
    with Cons.IH [of g' r'] Some a show ?thesis by simp
  qed
qed

lemma match_here_length:
  "match_here s = Some (g, r) \<Longrightarrow> length r < length s"
  unfolding match_here_def
  by (auto split: option.splits dest!: strip_prefix_length dot_plus_length)

text \<open>
  \<^verbatim>\<open>re.finditer\<close>: the leftmost match is taken, the scan resumes where it ended, and a
  position with no match is skipped. The list holds \<^verbatim>\<open>match.group(1)\<close> of every match.
\<close>

function finditer :: "string \<Rightarrow> string list" where
  "finditer [] = []"
| "finditer (c # cs) =
     (case match_here (c # cs) of
        Some (g, rest) \<Rightarrow> g # finditer rest
      | None \<Rightarrow> finditer cs)"
  by pat_completeness auto
termination
proof (relation "measure length")
  show "wf (measure length)" by simp
next
  fix c cs x2 x y
  assume "match_here (c # cs) = Some x2" "(x, y) = x2"
  then have "match_here (c # cs) = Some (x, y)" by simp
  then show "(y, c # cs) \<in> measure length"
    using match_here_length by fastforce
next
  fix c :: char and cs :: string
  show "(cs, c # cs) \<in> measure length" by simp
qed

fun extract_hostnames :: "Router list \<Rightarrow> exn + Hostname list" where
  "extract_hostnames [] = Inr []"
| "extract_hostnames (r # routers) =
     (case rule r of
        None \<Rightarrow> Inl KeyError
      | Some expr \<Rightarrow>
          (case extract_hostnames routers of
             Inl ex \<Rightarrow> Inl ex
           | Inr hostnames \<Rightarrow>
               Inr (map (\<lambda>g. \<lparr>hostname = g, router = r\<rparr>) (finditer expr) @ hostnames)))"

section \<open>The outside world\<close>

text \<open>
  What \<^verbatim>\<open>/usr/bin/nsupdate\<close> did with one transcript: either the process could not be
  started, or it ran and exited with a return code after writing to its standard output
  and to its standard error.
\<close>

datatype outcome = Spawn_failed | Exited int string string

text \<open>
  What the request to \<^verbatim>\<open>/api/http/routers\<close> gave: no response, a body that is not JSON,
  a JSON value without a length (a number, a boolean, null), or a JSON value that can be
  iterated, given by the elements of the iteration. An element is either a mapping, which
  \<^verbatim>\<open>Router(**entry)\<close> accepts as it is, or something that \<^verbatim>\<open>Router(**entry)\<close> rejects.
  Not only an array can be iterated: a top-level object is iterated over its keys and a
  top-level string over its characters, and neither a key nor a character is a mapping.
\<close>

datatype json_entry = Object Router | Other

datatype http_result = Unreachable | Bad_json | Unsized_json | Parsed "json_entry list"

definition top_level_object :: "string list \<Rightarrow> http_result" where
  "top_level_object ks = Parsed (map (\<lambda>k. Other) ks)"

definition top_level_string :: "string \<Rightarrow> http_result" where
  "top_level_string s = Parsed (map (\<lambda>c. Other) s)"

text \<open>
  Every effect of the program on its surroundings is recorded, in order, in a trace: the
  request to the proxy, each transcript handed to the update transport with what came of
  it, each statement that changes the table, and the sleep between two ticks.
\<close>

datatype event =
    Http_get http_result
  | Nsupdate string outcome
  | Db_upsert string string
  | Db_delete string
  | Sleep

text \<open>
  The surroundings answer as a function of everything that happened before, so two calls
  with the same arguments may be answered differently.
\<close>

record env =
  http_get :: "event list \<Rightarrow> http_result"
  nsupdate :: "event list \<Rightarrow> string \<Rightarrow> outcome"

text \<open>
  The table \<^verbatim>\<open>dns(hostname, router)\<close> is the list of its rows. The statements of the
  source are taken to execute: failures of the storage engine itself are not modelled.
\<close>

record world =
  db :: "(string \<times> string) list"
  trace :: "event list"

definition log_event :: "event \<Rightarrow> world \<Rightarrow> world" where
  "log_event ev w = w\<lparr>trace := trace w @ [ev]\<rparr>"

subsection \<open>The three statements on the table\<close>

definition insert_or_replace :: "string \<Rightarrow> string \<Rightarrow> (string \<times> string) list \<Rightarrow> (string \<times> string) list" where
  "insert_or_replace h r rows = filter (\<lambda>row. fst row \<noteq> h) rows @ [(h, r)]"

definition delete_where :: "string \<Rightarrow> (string \<times> string) list \<Rightarrow> (string \<times> string) list" where
  "delete_where h rows = filter (\<lambda>row. fst row \<noteq> h) rows"

text \<open>
  \<^verbatim>\<open>SELECT hostname FROM dns WHERE hostname NOT IN (?)\<close> has one placeholder, bound to
  one text value: a row is selected when its hostname differs from that value. The query
  reads only the primary key and is answered from its index, so the hostnames come in the
  order of the index, which compares texts byte by byte, a proper prefix first.
\<close>

definition select_not_in :: "string \<Rightarrow> (string \<times> string) list \<Rightarrow> string list" where
  "select_not_in v rows = filter (\<lambda>h. h \<noteq> v) (sort (map fst rows))"

fun join :: "string \<Rightarrow> string list \<Rightarrow> string" where
  "join sep [] = []"
| "join sep [x] = x"
| "join sep (x # y # ys) = x @ sep @ join sep (y # ys)"

section \<open>The DNS mutator\<close>

definition nsupdate_input :: "config \<Rightarrow> string \<Rightarrow> bool \<Rightarrow> string" where
  "nsupdate_input cfg h delete =
     ''server '' @ DNS_SERVER cfg @ [newline] @
     ''zone '' @ DNS_DOMAIN cfg @ [newline] @
     ''update delete '' @ h @ '' A'' @ [newline] @
     (if \<not> delete then ''update add '' @ h @ '' 3600 A '' @ TARGET_IP cfg @ [newline] else []) @
     ''send'' @ [newline] @ ''quit'' @ [newline]"

text \<open>
  \<^verbatim>\<open>proc.communicate\<close> returns the text of a stream only when that stream was opened as
  a pipe, and \<^verbatim>\<open>None\<close> otherwise.
\<close>

definition communicate :: "bool \<Rightarrow> bool \<Rightarrow> string \<Rightarrow> string \<Rightarrow> string option \<times> string option" where
  "communicate stdout_pipe stderr_pipe out err =
     (if stdout_pipe then Some out else None, if stderr_pipe then Some err else None)"

text \<open>
  The process is created with \<^verbatim>\<open>stdin=PIPE, stdout=PIPE\<close> and no \<^verbatim>\<open>stderr\<close> argument.
\<close>

definition update_dns_entry :: "config \<Rightarrow> env \<Rightarrow> string \<Rightarrow> bool \<Rightarrow> world \<Rightarrow> (exn + unit) \<times> world" where
  "update_dns_entry cfg e h delete w =
     (let input = nsupdate_input cfg h delete;
          result = nsupdate e (trace w) input;
          w' = log_event (Nsupdate input result) w
      in case result of
           Spawn_failed \<Rightarrow> (Inl OSError, w')
         | Exited returncode out err \<Rightarrow>
             (case communicate True False out err of
                (stdout, stderr) \<Rightarrow>
                  if returncode \<noteq> 0 then (Inl (Exception stderr), w') else (Inr (), w')))"

section \<open>The store and the clean-up\<close>

definition update_db :: "Hostname \<Rightarrow> world \<Rightarrow> world" where
  "update_db h w =
     log_event (Db_upsert (hostname h) (name (router h)))
       (w\<lparr>db := insert_or_replace (hostname h) (name (router h)) (db w)\<rparr>)"

text \<open>The loop over \<^verbatim>\<open>old_hostnames\<close>, with its \<^verbatim>\<open>try\<close> around each hostname.\<close>

fun cleanup_each :: "config \<Rightarrow> env \<Rightarrow> string list \<Rightarrow> world \<Rightarrow> world" where
  "cleanup_each cfg e [] w = w"
| "cleanup_each cfg e (h # hs) w =
     (case update_dns_entry cfg e h True w of
        (Inl ex, w') \<Rightarrow> cleanup_each cfg e hs w'
      | (Inr u, w') \<Rightarrow>
          cleanup_each cfg e hs (log_event (Db_delete h) (w'\<lparr>db := delete_where h (db w')\<rparr>)))"

definition old_hostnames :: "Hostname list \<Rightarrow> world \<Rightarrow> string list" where
  "old_hostnames hostnames w = select_not_in (join '','' (map hostname hostnames)) (db w)"

definition cleanup_old_dns_entries :: "config \<Rightarrow> env \<Rightarrow> Hostname list \<Rightarrow> world \<Rightarrow> world" where
  "cleanup_old_dns_entries cfg e hostnames w = cleanup_each cfg e (old_hostnames hostnames w) w"

section \<open>One tick and the loop around it\<close>

text \<open>The loop of \<^verbatim>\<open>fetch_routers\<close>: an entry that is no mapping is printed and skipped.\<close>

fun decode_entries :: "json_entry list \<Rightarrow> Router list" where
  "decode_entries [] = []"
| "decode_entries (Object r # es) = r # decode_entries es"
| "decode_entries (Other # es) = decode_entries es"

definition fetch_routers :: "env \<Rightarrow> world \<Rightarrow> (exn + Router list) \<times> world" where
  "fetch_routers e w =
     (let response = http_get e (trace w);
          w' = log_event (Http_get response) w
      in case response of
           Unreachable \<Rightarrow> (Inl ConnectionError, w')
         | Bad_json \<Rightarrow> (Inl JSONDecodeError, w')
         | Unsized_json \<Rightarrow> (Inl TypeError, w')
         | Parsed parsed \<Rightarrow> (Inr (decode_entries parsed), w'))"

text \<open>The loop over \<^verbatim>\<open>hostnames\<close> in \<^verbatim>\<open>update_loop\<close>, with its \<^verbatim>\<open>try\<close> around each record.\<close>

fun update_each :: "config \<Rightarrow> env \<Rightarrow> Hostname list \<Rightarrow> world \<Rightarrow> world" where
  "update_each cfg e [] w = w"
| "update_each cfg e (h # hs) w =
     (case update_dns_entry cfg e (hostname h) False w of
        (Inl ex, w') \<Rightarrow> update_each cfg e hs w'
      | (Inr u, w') \<Rightarrow> update_each cfg e hs (update_db h w'))"

definition update_loop :: "config \<Rightarrow> env \<Rightarrow> world \<Rightarrow> (exn + unit) \<times> world" where
  "update_loop cfg e w =
     (case fetch_routers e w of
        (Inl ex, w1) \<Rightarrow> (Inl ex, w1)
      | (Inr routers, w1) \<Rightarrow>
          (case filter_routers cfg routers of
             Inl ex \<Rightarrow> (Inl ex, w1)
           | Inr filtered_routers \<Rightarrow>
               (case extract_hostnames filtered_routers of
                  Inl ex \<Rightarrow> (Inl ex, w1)
                | Inr hostnames \<Rightarrow>
                    (let w2 = update_each cfg e hostnames w1
                     in (Inr (), cleanup_old_dns_entries cfg e hostnames w2)))))"





section \<open>Reading a trace\<close>

text \<open>
  The events that a run added to the trace, the transcripts among them, what came of each,
  and the effect of the table statements among them on a table.
\<close>

definition new_events :: "world \<Rightarrow> world \<Rightarrow> event list" where
  "new_events w w' = drop (length (trace w)) (trace w')"

fun succeeded :: "outcome \<Rightarrow> bool" where
  "succeeded Spawn_failed = False"
| "succeeded (Exited returncode out err) = (returncode = 0)"

fun transcripts :: "event list \<Rightarrow> string list" where
  "transcripts [] = []"
| "transcripts (Nsupdate input result # evs) = input # transcripts evs"
| "transcripts (ev # evs) = transcripts evs"

fun outcomes :: "event list \<Rightarrow> outcome list" where
  "outcomes [] = []"
| "outcomes (Nsupdate input result # evs) = result # outcomes evs"
| "outcomes (ev # evs) = outcomes evs"

fun replay :: "event list \<Rightarrow> (string \<times> string) list \<Rightarrow> (string \<times> string) list" where
  "replay [] rows = rows"
| "replay (Db_upsert h r # evs) rows = replay evs (insert_or_replace h r rows)"
| "replay (Db_delete h # evs) rows = replay evs (delete_where h rows)"
| "replay (ev # evs) rows = replay evs rows"

fun is_sleep :: "event \<Rightarrow> bool" where
  "is_sleep Sleep = True"
| "is_sleep ev = False"

fun is_http_get :: "event \<Rightarrow> bool" where
  "is_http_get (Http_get response) = True"
| "is_http_get ev = False"

text \<open>
  A table statement in a trace is justified when the event just before it is the
  transcript of the matching mutation for the same hostname, and that mutation succeeded:
  the add transcript before an upsert, the delete transcript before a deletion.
\<close>

fun mutation_before :: "config \<Rightarrow> event option \<Rightarrow> string \<Rightarrow> bool \<Rightarrow> bool" where
  "mutation_before cfg (Some (Nsupdate input result)) h delete =
     (input = nsupdate_input cfg h delete \<and> succeeded result)"
| "mutation_before cfg prev h delete = False"

fun justified :: "config \<Rightarrow> event option \<Rightarrow> event \<Rightarrow> bool" where
  "justified cfg prev (Db_upsert h r) = mutation_before cfg prev h False"
| "justified cfg prev (Db_delete h) = mutation_before cfg prev h True"
| "justified cfg prev ev = True"

fun all_justified :: "config \<Rightarrow> event option \<Rightarrow> event list \<Rightarrow> bool" where
  "all_justified cfg prev [] = True"
| "all_justified cfg prev (ev # evs) = (justified cfg prev ev \<and> all_justified cfg (Some ev) evs)"

text \<open>
  The directives of section 6 of the specification, one per line. This definition follows
  the specification, not the source; \<open>nsupdate_input\<close> is compared with it below.
\<close>

definition spec_directives :: "config \<Rightarrow> string \<Rightarrow> bool \<Rightarrow> string list" where
  "spec_directives cfg h add_mode =
     [''server '' @ DNS_SERVER cfg, ''zone '' @ DNS_DOMAIN cfg, ''update delete '' @ h @ '' A'']
     @ (if add_mode then [''update add '' @ h @ '' 3600 A '' @ TARGET_IP cfg] else [])
     @ [''send'', ''quit'']"

section \<open>Concrete settings, routers and surroundings\<close>

definition default_config :: config where
  "default_config =
     \<lparr>TRAEFIK_ENTRYPOINTS = [''web'', ''websecure''], DNS_SERVER = ''192.168.178.1'',
      DNS_DOMAIN = ''fritz.box'', TARGET_IP = ''192.168.178.2'', UPDATE_INTERVAL = 60\<rparr>"

definition web_router :: "string \<Rightarrow> string \<Rightarrow> Router" where
  "web_router n r =
     \<lparr>entryPoints = Some [''web''], service = ''svc'', rule = Some r, ruleSyntax = [],
      priority = 0, status = ''enabled'', using_ = [''web''], name = n, provider = ''docker''\<rparr>"

definition record_of :: "string \<Rightarrow> Hostname" where
  "record_of h = \<lparr>hostname = h, router = web_router ''r1'' []\<rparr>"

text \<open>Surroundings that always give the same response and the same outcome.\<close>

definition steady_env :: "http_result \<Rightarrow> outcome \<Rightarrow> env" where
  "steady_env response result = \<lparr>http_get = (\<lambda>tr. response), nsupdate = (\<lambda>tr input. result)\<rparr>"

text \<open>Surroundings in which exactly the mutations of one hostname are refused.\<close>

definition refusing_env :: "string \<Rightarrow> env" where
  "refusing_env h =
     \<lparr>http_get = (\<lambda>tr. Parsed []),
      nsupdate = (\<lambda>tr input.
         if input = nsupdate_input default_config h False
         then Exited 2 [] ''update failed: REFUSED''
         else Exited 0 [] [])\<rparr>"

definition empty_world :: world where
  "empty_world = \<lparr>db = [], trace = []\<rparr>"

section \<open>Traces only grow\<close>

lemma transcripts_append: "transcripts (xs @ ys) = transcripts xs @ transcripts ys"
  by (induction xs rule: transcripts.induct) simp_all

lemma outcomes_append: "outcomes (xs @ ys) = outcomes xs @ outcomes ys"
  by (induction xs rule: outcomes.induct) simp_all

lemma replay_append: "replay (xs @ ys) rows = replay ys (replay xs rows)"
  by (induction xs rows rule: replay.induct) simp_all

lemma all_justified_append:
  "all_justified cfg prev xs \<Longrightarrow> (\<And>p. all_justified cfg p ys) \<Longrightarrow> all_justified cfg prev (xs @ ys)"
  by (induction xs arbitrary: prev) simp_all

lemma new_eventsI: "trace w' = trace w @ evs \<Longrightarrow> new_events w w' = evs"
  by (simp add: new_events_def)

lemma db_log_event: "db (log_event ev w) = db w"
  by (simp add: log_event_def)

lemma trace_log_event: "trace (log_event ev w) = trace w @ [ev]"
  by (simp add: log_event_def)

subsection \<open>The mutator\<close>

lemma snd_update_dns_entry:
  "snd (update_dns_entry cfg e h delete w) =
     log_event (Nsupdate (nsupdate_input cfg h delete)
                  (nsupdate e (trace w) (nsupdate_input cfg h delete))) w"
  by (simp add: update_dns_entry_def Let_def communicate_def split: outcome.splits)

lemma fst_update_dns_entry:
  "(fst (update_dns_entry cfg e h delete w) = Inr ()) =
     succeeded (nsupdate e (trace w) (nsupdate_input cfg h delete))"
  by (simp add: update_dns_entry_def Let_def communicate_def split: outcome.splits)

text \<open>One step of each loop, written with the outcome of the mutation.\<close>

lemma update_each_Cons:
  "update_each cfg e (h # hs) w =
     (let input = nsupdate_input cfg (hostname h) False;
          result = nsupdate e (trace w) input;
          w' = log_event (Nsupdate input result) w
      in update_each cfg e hs (if succeeded result then update_db h w' else w'))"
proof -
  obtain r w' where rw: "update_dns_entry cfg e (hostname h) False w = (r, w')"
    by (cases "update_dns_entry cfg e (hostname h) False w")
  from rw snd_update_dns_entry [of cfg e "hostname h" False w]
  have w': "w' = log_event (Nsupdate (nsupdate_input cfg (hostname h) False)
                  (nsupdate e (trace w) (nsupdate_input cfg (hostname h) False))) w"
    by simp
  from rw fst_update_dns_entry [of cfg e "hostname h" False w]
  have r: "(r = Inr ()) = succeeded (nsupdate e (trace w) (nsupdate_input cfg (hostname h) False))"
    by simp
  show ?thesis
  proof (cases r)
    case (Inl ex)
    with r rw w' show ?thesis by (simp add: Let_def)
  next
    case (Inr u)
    with r rw w' show ?thesis by (simp add: Let_def)
  qed
qed

lemma cleanup_each_Cons:
  "cleanup_each cfg e (h # hs) w =
     (let input = nsupdate_input cfg h True;
          result = nsupdate e (trace w) input;
          w' = log_event (Nsupdate input result) w
      in cleanup_each cfg e hs
           (if succeeded result
            then log_event (Db_delete h) (w'\<lparr>db := delete_where h (db w')\<rparr>) else w'))"
proof -
  obtain r w' where rw: "update_dns_entry cfg e h True w = (r, w')"
    by (cases "update_dns_entry cfg e h True w")
  from rw snd_update_dns_entry [of cfg e h True w]
  have w': "w' = log_event (Nsupdate (nsupdate_input cfg h True)
                  (nsupdate e (trace w) (nsupdate_input cfg h True))) w"
    by simp
  from rw fst_update_dns_entry [of cfg e h True w]
  have r: "(r = Inr ()) = succeeded (nsupdate e (trace w) (nsupdate_input cfg h True))"
    by simp
  show ?thesis
  proof (cases r)
    case (Inl ex)
    with r rw w' show ?thesis by (simp add: Let_def)
  next
    case (Inr u)
    with r rw w' show ?thesis by (simp add: Let_def)
  qed
qed

lemma update_each_events:
  "\<exists>evs. trace (update_each cfg e hs w) = trace w @ evs
       \<and> transcripts evs = map (\<lambda>h. nsupdate_input cfg (hostname h) False) hs
       \<and> (\<forall>p. all_justified cfg p evs)
       \<and> db (update_each cfg e hs w) = replay evs (db w)
       \<and> filter is_sleep evs = [] \<and> filter is_http_get evs = []"
proof (induction hs arbitrary: w)
  case Nil
  show ?case by simp
next
  case (Cons h hs)
  let ?input = "nsupdate_input cfg (hostname h) False"
  let ?result = "nsupdate e (trace w) ?input"
  let ?w' = "log_event (Nsupdate ?input ?result) w"
  let ?w1 = "if succeeded ?result then update_db h ?w' else ?w'"
  let ?step = "Nsupdate ?input ?result #
     (if succeeded ?result then [Db_upsert (hostname h) (name (router h))] else [])"
  have step: "update_each cfg e (h # hs) w = update_each cfg e hs ?w1"
    by (simp only: update_each_Cons Let_def)
  have tr: "trace ?w1 = trace w @ ?step"
    by (simp add: update_db_def log_event_def)
  have dbs: "db ?w1 = replay ?step (db w)"
    by (simp add: update_db_def log_event_def)
  have just: "all_justified cfg p ?step" for p
    by simp
  from Cons.IH [of ?w1] obtain evs where
    evs: "trace (update_each cfg e hs ?w1) = trace ?w1 @ evs"
         "transcripts evs = map (\<lambda>h. nsupdate_input cfg (hostname h) False) hs"
         "\<forall>p. all_justified cfg p evs"
         "db (update_each cfg e hs ?w1) = replay evs (db ?w1)"
         "filter is_sleep evs = []" "filter is_http_get evs = []"
    by blast
  have "trace (update_each cfg e (h # hs) w) = trace w @ (?step @ evs)"
    using step evs(1) tr by simp
  moreover have "transcripts (?step @ evs) = map (\<lambda>h. nsupdate_input cfg (hostname h) False) (h # hs)"
    using evs(2) by (simp add: transcripts_append)
  moreover have "\<forall>p. all_justified cfg p (?step @ evs)"
    using all_justified_append [OF just] evs(3) by blast
  moreover have "db (update_each cfg e (h # hs) w) = replay (?step @ evs) (db w)"
    using step evs(4) dbs by (simp only: replay_append)
  moreover have "filter is_sleep (?step @ evs) = []" "filter is_http_get (?step @ evs) = []"
    using evs(5,6) by simp_all
  ultimately show ?case by blast
qed

lemma cleanup_each_events:
  "\<exists>evs. trace (cleanup_each cfg e hs w) = trace w @ evs
       \<and> transcripts evs = map (\<lambda>h. nsupdate_input cfg h True) hs
       \<and> (\<forall>p. all_justified cfg p evs)
       \<and> db (cleanup_each cfg e hs w) = replay evs (db w)
       \<and> filter is_sleep evs = [] \<and> filter is_http_get evs = []
       \<and> (list_all succeeded (outcomes evs) \<longrightarrow>
            db (cleanup_each cfg e hs w) = filter (\<lambda>row. fst row \<notin> set hs) (db w))"
proof (induction hs arbitrary: w)
  case Nil
  show ?case by simp
next
  case (Cons h hs)
  let ?input = "nsupdate_input cfg h True"
  let ?result = "nsupdate e (trace w) ?input"
  let ?w' = "log_event (Nsupdate ?input ?result) w"
  let ?w1 = "if succeeded ?result
             then log_event (Db_delete h) (?w'\<lparr>db := delete_where h (db ?w')\<rparr>) else ?w'"
  let ?step = "Nsupdate ?input ?result # (if succeeded ?result then [Db_delete h] else [])"
  have step: "cleanup_each cfg e (h # hs) w = cleanup_each cfg e hs ?w1"
    by (simp only: cleanup_each_Cons Let_def)
  have tr: "trace ?w1 = trace w @ ?step"
    by (simp add: log_event_def)
  have dbs: "db ?w1 = replay ?step (db w)"
    by (simp add: log_event_def)
  have just: "all_justified cfg p ?step" for p
    by simp
  from Cons.IH [of ?w1] obtain evs where
    evs: "trace (cleanup_each cfg e hs ?w1) = trace ?w1 @ evs"
         "transcripts evs = map (\<lambda>h. nsupdate_input cfg h True) hs"
         "\<forall>p. all_justified cfg p evs"
         "db (cleanup_each cfg e hs ?w1) = replay evs (db ?w1)"
         "filter is_sleep evs = []" "filter is_http_get evs = []"
         "list_all succeeded (outcomes evs) \<longrightarrow>
            db (cleanup_each cfg e hs ?w1) = filter (\<lambda>row. fst row \<notin> set hs) (db ?w1)"
    by blast
  have "trace (cleanup_each cfg e (h # hs) w) = trace w @ (?step @ evs)"
    using step evs(1) tr by simp
  moreover have "transcripts (?step @ evs) = map (\<lambda>h. nsupdate_input cfg h True) (h # hs)"
    using evs(2) by (simp add: transcripts_append)
  moreover have "\<forall>p. all_justified cfg p (?step @ evs)"
    using all_justified_append [OF just] evs(3) by blast
  moreover have "db (cleanup_each cfg e (h # hs) w) = replay (?step @ evs) (db w)"
    using step evs(4) dbs by (simp only: replay_append)
  moreover have "filter is_sleep (?step @ evs) = []" "filter is_http_get (?step @ evs) = []"
    using evs(5,6) by simp_all
  moreover have "list_all succeeded (outcomes (?step @ evs)) \<longrightarrow>
            db (cleanup_each cfg e (h # hs) w) = filter (\<lambda>row. fst row \<notin> set (h # hs)) (db w)"
  proof
    assume ok: "list_all succeeded (outcomes (?step @ evs))"
    then have s: "succeeded ?result" and rest: "list_all succeeded (outcomes evs)"
      by (simp_all add: outcomes_append split: if_splits)
    from s have "db ?w1 = delete_where h (db w)"
      by (simp add: log_event_def)
    with rest evs(7) step
    have "db (cleanup_each cfg e (h # hs) w) = filter (\<lambda>row. fst row \<notin> set hs) (delete_where h (db w))"
      by simp
    then show "db (cleanup_each cfg e (h # hs) w) = filter (\<lambda>row. fst row \<notin> set (h # hs)) (db w)"
      by (simp add: delete_where_def conj_commute)
  qed
  ultimately show ?case by blast
qed

section \<open>Extraction\<close>

text \<open>
  C3. The claim is that the rule \<^verbatim>\<open>Host(`a.example.com`) || Host(`b.example.com`)\<close> yields
  the two hostnames \<^verbatim>\<open>a.example.com\<close> and \<^verbatim>\<open>b.example.com\<close>. The greedy group runs to the
  last closing literal of the line, so the source yields one record, whose hostname is
  everything between the first opening and the last closing literal.
\<close>

theorem extract_hostnames_two_hosts_one_match:
  "map_sum id (map hostname) (extract_hostnames
      [web_router ''r1'' ''Host(`a.example.com`) || Host(`b.example.com`)''])
   = Inr [''a.example.com`) || Host(`b.example.com'']"
  by (simp add: web_router_def match_here_def host_open_def
      host_close_def backtick_def newline_def)

section \<open>The stale set\<close>

text \<open>
  C1. The claim is that with the persisted hostnames a, b, c and the desired hostnames
  a, c the stale set is exactly b. The source binds the comma-joined text \<^verbatim>\<open>a,c\<close> to the
  single placeholder, no persisted hostname equals it, and all three are selected and
  retired.
\<close>

theorem stale_set_selects_desired_hostnames:
  "old_hostnames [record_of ''a'', record_of ''c'']
      \<lparr>db = [(''a'', ''r1''), (''b'', ''r1''), (''c'', ''r1'')], trace = []\<rparr>
     = [''a'', ''b'', ''c'']
   \<and> db (cleanup_old_dns_entries default_config (steady_env (Parsed []) (Exited 0 [] []))
          [record_of ''a'', record_of ''c'']
          \<lparr>db = [(''a'', ''r1''), (''b'', ''r1''), (''c'', ''r1'')], trace = []\<rparr>) = []"
  by code_simp

text \<open>
  C2. The claim is that after a tick whose mutations all succeed the store holds exactly
  the extracted hostnames. With two routers that give the hostnames \<^verbatim>\<open>a.example.com\<close> and
  \<^verbatim>\<open>c.example.com\<close> and an empty store, every mutation succeeds, both hostnames are
  upserted, and the clean-up of the same tick then deletes both: the store ends empty.
\<close>

theorem tick_with_two_hostnames_empties_store:
  "filter_routers default_config
      [web_router ''r1'' ''Host(`a.example.com`)'', web_router ''r2'' ''Host(`c.example.com`)'']
     = Inr [web_router ''r1'' ''Host(`a.example.com`)'', web_router ''r2'' ''Host(`c.example.com`)'']
   \<and> map_sum id (map hostname) (extract_hostnames
      [web_router ''r1'' ''Host(`a.example.com`)'', web_router ''r2'' ''Host(`c.example.com`)''])
     = Inr [''a.example.com'', ''c.example.com'']
   \<and> fst (update_loop default_config
          (steady_env (Parsed [Object (web_router ''r1'' ''Host(`a.example.com`)''),
                               Object (web_router ''r2'' ''Host(`c.example.com`)'')])
                      (Exited 0 [] []))
          empty_world) = Inr ()
   \<and> db (snd (update_loop default_config
          (steady_env (Parsed [Object (web_router ''r1'' ''Host(`a.example.com`)''),
                               Object (web_router ''r2'' ''Host(`c.example.com`)'')])
                      (Exited 0 [] []))
          empty_world)) = []
   \<and> list_all succeeded (outcomes (trace (snd (update_loop default_config
          (steady_env (Parsed [Object (web_router ''r1'' ''Host(`a.example.com`)''),
                               Object (web_router ''r2'' ''Host(`c.example.com`)'')])
                      (Exited 0 [] []))
          empty_world))))"
  by code_simp

section \<open>The transcript\<close>

text \<open>
  C4. For every hostname and mode, the transcript is the directives of the
  specification, each ended by a line feed: it begins with the server and the zone
  directive, holds the delete directive, holds the add directive exactly in add mode, and
  ends with \<^verbatim>\<open>send\<close> and \<^verbatim>\<open>quit\<close>. This transcript is what the mutator hands to the
  transport, whatever comes of it.
\<close>

theorem nsupdate_input_directives:
  "nsupdate_input cfg h delete
     = concat (map (\<lambda>l. l @ [newline]) (spec_directives cfg h (\<not> delete)))
   \<and> take 2 (spec_directives cfg h (\<not> delete))
       = [''server '' @ DNS_SERVER cfg, ''zone '' @ DNS_DOMAIN cfg]
   \<and> ''update delete '' @ h @ '' A'' \<in> set (spec_directives cfg h (\<not> delete))
   \<and> ((''update add '' @ h @ '' 3600 A '' @ TARGET_IP cfg
          \<in> set (spec_directives cfg h (\<not> delete))) = (\<not> delete))
   \<and> drop (length (spec_directives cfg h (\<not> delete)) - 2) (spec_directives cfg h (\<not> delete))
       = [''send'', ''quit'']
   \<and> new_events w (snd (update_dns_entry cfg e h delete w))
       = [Nsupdate (nsupdate_input cfg h delete)
            (nsupdate e (trace w) (nsupdate_input cfg h delete))]"
proof -
  have "new_events w (snd (update_dns_entry cfg e h delete w))
       = [Nsupdate (nsupdate_input cfg h delete)
            (nsupdate e (trace w) (nsupdate_input cfg h delete))]"
    by (simp add: snd_update_dns_entry new_eventsI trace_log_event)
  moreover have "(''update add '' @ h @ '' 3600 A '' @ TARGET_IP cfg
          \<in> set (spec_directives cfg h (\<not> delete))) = (\<not> delete)"
    by (cases delete) (simp_all add: spec_directives_def)
  ultimately show ?thesis
    by (simp add: nsupdate_input_def spec_directives_def)
qed

theorem nsupdate_input_directives_witness:
  "nsupdate_input default_config ''svc.local'' True
     = ''server 192.168.178.1'' @ [newline] @ ''zone fritz.box'' @ [newline]
       @ ''update delete svc.local A'' @ [newline] @ ''send'' @ [newline] @ ''quit'' @ [newline]
   \<and> ''update add svc.local 3600 A 192.168.178.2''
       \<in> set (spec_directives default_config ''svc.local'' True)"
  using nsupdate_input_directives [of default_config "''svc.local''" True empty_world
      "steady_env (Parsed []) (Exited 0 [] [])"]
    nsupdate_input_directives [of default_config "''svc.local''" False empty_world
      "steady_env (Parsed []) (Exited 0 [] [])"]
  by (simp add: spec_directives_def default_config_def)

section \<open>Failure of the transport\<close>

text \<open>
  C5, as the claim states it, fails twice. A transport that exits with status 2 after
  writing a diagnostic to its standard error makes the mutator raise an exception whose
  payload is \<^verbatim>\<open>None\<close>, not the diagnostic: the standard error is not opened as a pipe.
  A transport that writes a diagnostic and exits with status 0 raises nothing.
\<close>

theorem update_dns_entry_payload_counterexample:
  "fst (update_dns_entry default_config
          (steady_env (Parsed []) (Exited 2 [] ''update failed: REFUSED''))
          ''svc.local'' False empty_world) = Inl (Exception None)
   \<and> fst (update_dns_entry default_config
          (steady_env (Parsed []) (Exited 2 [] ''update failed: REFUSED''))
          ''svc.local'' False empty_world) \<noteq> Inl (Exception (Some ''update failed: REFUSED''))
   \<and> fst (update_dns_entry default_config
          (steady_env (Parsed []) (Exited 0 [] ''could not read rndc.key''))
          ''svc.local'' False empty_world) = Inr ()"
  by (simp add: update_dns_entry_def steady_env_def communicate_def)

text \<open>
  C5, amended. When the transport ran, the mutator raises if and only if the exit status
  is not zero; what was written to the standard error plays no part.
\<close>

theorem update_dns_entry_raises_iff:
  assumes "nsupdate e (trace w) (nsupdate_input cfg h delete) = Exited returncode out err"
  shows "(\<exists>ex. fst (update_dns_entry cfg e h delete w) = Inl ex) = (returncode \<noteq> 0)
       \<and> (fst (update_dns_entry cfg e h delete w) = Inr ()) = (returncode = 0)"
  using assms by (simp add: update_dns_entry_def Let_def communicate_def)

theorem update_dns_entry_raises_iff_witness:
  "nsupdate (steady_env (Parsed []) (Exited 2 [] ''update failed: REFUSED''))
      (trace empty_world) (nsupdate_input default_config ''svc.local'' False)
     = Exited 2 [] ''update failed: REFUSED''
   \<and> (\<exists>ex. fst (update_dns_entry default_config
          (steady_env (Parsed []) (Exited 2 [] ''update failed: REFUSED''))
          ''svc.local'' False empty_world) = Inl ex)"
proof -
  have h: "nsupdate (steady_env (Parsed []) (Exited 2 [] ''update failed: REFUSED''))
      (trace empty_world) (nsupdate_input default_config ''svc.local'' False)
     = Exited 2 [] ''update failed: REFUSED''"
    by (simp add: steady_env_def)
  from update_dns_entry_raises_iff [OF h] h show ?thesis by simp
qed

section \<open>Publishing\<close>

lemma update_each_append:
  "update_each cfg e (xs @ ys) w = update_each cfg e ys (update_each cfg e xs w)"
  by (induction xs arbitrary: w) (simp_all split: prod.splits sum.splits)

lemma keys_insert_or_replace:
  "fst ` set (insert_or_replace h r rows) = insert h (fst ` set rows)"
  by (auto simp: insert_or_replace_def)

lemma update_each_keeps_keys:
  "k \<in> fst ` set (db w) \<Longrightarrow> k \<in> fst ` set (db (update_each cfg e hs w))"
proof (induction hs arbitrary: w)
  case Nil
  then show ?case by simp
next
  case (Cons h hs)
  let ?input = "nsupdate_input cfg (hostname h) False"
  let ?w' = "log_event (Nsupdate ?input (nsupdate e (trace w) ?input)) w"
  let ?w1 = "if succeeded (nsupdate e (trace w) ?input) then update_db h ?w' else ?w'"
  from Cons.prems have "k \<in> fst ` set (db ?w1)"
    by (simp add: update_db_def log_event_def keys_insert_or_replace)
  then have "k \<in> fst ` set (db (update_each cfg e hs ?w1))"
    by (rule Cons.IH)
  then show ?case
    by (simp only: update_each_Cons Let_def)
qed

lemma update_each_failed_step:
  assumes "fst (update_dns_entry cfg e (hostname x) False w) = Inl ex"
  shows "db (update_each cfg e [x] w) = db w"
proof -
  from assms have "\<not> succeeded (nsupdate e (trace w) (nsupdate_input cfg (hostname x) False))"
    using fst_update_dns_entry [of cfg e "hostname x" False w] by simp
  then show ?thesis
    unfolding update_each_Cons Let_def by (simp add: log_event_def)
qed

lemma update_each_succeeded_step:
  assumes "fst (update_dns_entry cfg e (hostname y) False w) = Inr ()"
  shows "db (update_each cfg e [y] w) = insert_or_replace (hostname y) (name (router y)) (db w)"
proof -
  from assms have "succeeded (nsupdate e (trace w) (nsupdate_input cfg (hostname y) False))"
    using fst_update_dns_entry [of cfg e "hostname y" False w] by simp
  then show ?thesis
    unfolding update_each_Cons Let_def by (simp add: log_event_def update_db_def)
qed

text \<open>
  C6. Let the desired sequence be \<open>pre @ x # mid @ y # post\<close>, let the mutation of \<open>x\<close>
  fail when its turn comes, and let the mutation of the later record \<open>y\<close> succeed when its
  turn comes. Then the step of \<open>x\<close> leaves the table as it was; one add transcript per
  record of the whole sequence is handed to the transport, in order, the failure
  notwithstanding; the step of \<open>y\<close> upserts its hostname with its router name; and that
  hostname is in the table when the phase ends.
\<close>

theorem update_each_isolates_failure:
  assumes "fst (update_dns_entry cfg e (hostname x) False (update_each cfg e pre w)) = Inl ex"
      and "fst (update_dns_entry cfg e (hostname y) False
                 (update_each cfg e (pre @ x # mid) w)) = Inr ()"
  shows "db (update_each cfg e (pre @ [x]) w) = db (update_each cfg e pre w)
       \<and> transcripts (new_events w (update_each cfg e (pre @ x # mid @ y # post) w))
           = map (\<lambda>h. nsupdate_input cfg (hostname h) False) (pre @ x # mid @ y # post)
       \<and> db (update_each cfg e (pre @ x # mid @ [y]) w)
           = insert_or_replace (hostname y) (name (router y))
               (db (update_each cfg e (pre @ x # mid) w))
       \<and> hostname y \<in> fst ` set (db (update_each cfg e (pre @ x # mid @ y # post) w))"
proof -
  have a: "db (update_each cfg e (pre @ [x]) w) = db (update_each cfg e pre w)"
    using update_each_failed_step [OF assms(1)] by (simp only: update_each_append)
  obtain evs where
    evs: "trace (update_each cfg e (pre @ x # mid @ y # post) w) = trace w @ evs"
         "transcripts evs
            = map (\<lambda>h. nsupdate_input cfg (hostname h) False) (pre @ x # mid @ y # post)"
    using update_each_events [of cfg e "pre @ x # mid @ y # post" w] by blast
  have b: "transcripts (new_events w (update_each cfg e (pre @ x # mid @ y # post) w))
           = map (\<lambda>h. nsupdate_input cfg (hostname h) False) (pre @ x # mid @ y # post)"
    using evs new_eventsI [OF evs(1)] by simp
  have split_y: "pre @ x # mid @ [y] = (pre @ x # mid) @ [y]"
    by simp
  have c: "db (update_each cfg e (pre @ x # mid @ [y]) w)
           = insert_or_replace (hostname y) (name (router y))
               (db (update_each cfg e (pre @ x # mid) w))"
    using update_each_succeeded_step [OF assms(2)]
    by (simp only: split_y update_each_append)
  have split_post: "pre @ x # mid @ y # post = (pre @ x # mid @ [y]) @ post"
    by simp
  have "hostname y \<in> fst ` set (db (update_each cfg e (pre @ x # mid @ [y]) w))"
    by (simp only: c keys_insert_or_replace) simp
  then have d: "hostname y \<in> fst ` set (db (update_each cfg e (pre @ x # mid @ y # post) w))"
    unfolding split_post update_each_append [of cfg e "pre @ x # mid @ [y]" post w]
    by (rule update_each_keeps_keys)
  from a b c d show ?thesis by blast
qed

theorem update_each_isolates_failure_witness:
  "fst (update_dns_entry default_config (refusing_env ''x.local'') (hostname (record_of ''x.local''))
          False (update_each default_config (refusing_env ''x.local'') [] empty_world))
     = Inl (Exception None)
   \<and> fst (update_dns_entry default_config (refusing_env ''x.local'') (hostname (record_of ''y.local''))
          False (update_each default_config (refusing_env ''x.local'')
                   ([] @ record_of ''x.local'' # []) empty_world)) = Inr ()
   \<and> db (update_each default_config (refusing_env ''x.local'')
          [record_of ''x.local'', record_of ''y.local'', record_of ''z.local''] empty_world)
     = [(''y.local'', ''r1''), (''z.local'', ''r1'')]
   \<and> ''y.local'' \<in> fst ` set (db (update_each default_config (refusing_env ''x.local'')
          [record_of ''x.local'', record_of ''y.local'', record_of ''z.local''] empty_world))"
proof -
  have h1: "fst (update_dns_entry default_config (refusing_env ''x.local'')
          (hostname (record_of ''x.local''))
          False (update_each default_config (refusing_env ''x.local'') [] empty_world))
     = Inl (Exception None)"
    by (simp add: update_dns_entry_def refusing_env_def communicate_def record_of_def)
  have h2: "fst (update_dns_entry default_config (refusing_env ''x.local'')
          (hostname (record_of ''y.local''))
          False (update_each default_config (refusing_env ''x.local'')
                   ([] @ record_of ''x.local'' # []) empty_world)) = Inr ()"
    by (simp add: update_dns_entry_def refusing_env_def communicate_def record_of_def
        nsupdate_input_def)
  have d: "db (update_each default_config (refusing_env ''x.local'')
          [record_of ''x.local'', record_of ''y.local'', record_of ''z.local''] empty_world)
     = [(''y.local'', ''r1''), (''z.local'', ''r1'')]"
    by (simp add: update_dns_entry_def refusing_env_def communicate_def record_of_def
        nsupdate_input_def update_db_def log_event_def insert_or_replace_def empty_world_def
        web_router_def)
  from update_each_isolates_failure [OF h1 h2, of "[record_of ''z.local'']"]
  have "hostname (record_of ''y.local'') \<in> fst ` set (db (update_each default_config
          (refusing_env ''x.local'')
          ([] @ record_of ''x.local'' # [] @ record_of ''y.local'' # [record_of ''z.local''])
          empty_world))"
    by blast
  then have "''y.local'' \<in> fst ` set (db (update_each default_config (refusing_env ''x.local'')
          [record_of ''x.local'', record_of ''y.local'', record_of ''z.local''] empty_world))"
    by (simp add: record_of_def)
  with h1 h2 d show ?thesis by blast
qed

section \<open>The whole tick\<close>

lemma fetch_routers_world:
  "snd (fetch_routers e w) = log_event (Http_get (http_get e (trace w))) w"
  by (simp add: fetch_routers_def Let_def split: http_result.splits)

lemma fetch_routers_fails:
  "(\<exists>ex. fst (fetch_routers e w) = Inl ex)
     = (http_get e (trace w) \<in> {Unreachable, Bad_json, Unsized_json})"
  by (simp add: fetch_routers_def Let_def split: http_result.splits)

text \<open>
  A tick raises only before its first mutation: while fetching, or on an absent key while
  filtering or extracting. It then leaves nothing but the request behind.
\<close>

lemma raising_tick_world:
  assumes "fst (update_loop cfg e w) = Inl ex"
  shows "snd (update_loop cfg e w) = log_event (Http_get (http_get e (trace w))) w"
proof -
  obtain r w1 where f: "fetch_routers e w = (r, w1)"
    by (cases "fetch_routers e w")
  with fetch_routers_world [of e w]
  have w1: "w1 = log_event (Http_get (http_get e (trace w))) w"
    by simp
  from assms f have "snd (update_loop cfg e w) = w1"
    by (auto simp: update_loop_def Let_def split: sum.splits)
  with w1 show ?thesis by simp
qed

lemma normal_tick_world:
  assumes "fst (update_loop cfg e w) = Inr u"
  shows "\<exists>filtered hostnames.
           extract_hostnames filtered = Inr hostnames
         \<and> snd (update_loop cfg e w)
             = cleanup_each cfg e
                 (old_hostnames hostnames
                    (update_each cfg e hostnames (log_event (Http_get (http_get e (trace w))) w)))
                 (update_each cfg e hostnames (log_event (Http_get (http_get e (trace w))) w))"
proof -
  obtain r w1 where f: "fetch_routers e w = (r, w1)"
    by (cases "fetch_routers e w")
  with fetch_routers_world [of e w]
  have w1: "w1 = log_event (Http_get (http_get e (trace w))) w"
    by simp
  from assms f w1 show ?thesis
    by (auto simp: update_loop_def Let_def cleanup_old_dns_entries_def split: sum.splits)
qed

text \<open>
  C7, as the claim states it, fails for a response that is JSON of the wrong shape. A
  top-level object is iterated over its keys, every key is skipped as an entry that is no
  mapping, the fetch returns no router and no error, and the tick goes on with nothing
  desired: the persisted hostname is deleted from the DNS and from the table.
\<close>

theorem wrong_shaped_json_retires_store:
  "update_loop default_config (steady_env (top_level_object [''routers'']) (Exited 0 [] []))
      \<lparr>db = [(''svc.local'', ''r1'')], trace = []\<rparr>
     = (Inr (),
        \<lparr>db = [],
         trace = [Http_get (top_level_object [''routers'']),
                  Nsupdate (nsupdate_input default_config ''svc.local'' True) (Exited 0 [] []),
                  Db_delete ''svc.local'']\<rparr>)"
  by code_simp

text \<open>
  C7, amended. When fetching the routers raises, which it does exactly when the proxy gave
  no response, a body that is not JSON, or a JSON value without a length, the tick ends
  with that error after the request alone: the table is what it was, and the request is
  the only event of the tick, so no transcript was handed to the transport and no
  statement changed the table.
\<close>

theorem fetch_failure_aborts_tick:
  assumes "fst (fetch_routers e w) = Inl ex"
  shows "http_get e (trace w) \<in> {Unreachable, Bad_json, Unsized_json}
       \<and> fst (update_loop cfg e w) = Inl ex
       \<and> db (snd (update_loop cfg e w)) = db w
       \<and> new_events w (snd (update_loop cfg e w)) = [Http_get (http_get e (trace w))]
       \<and> transcripts (new_events w (snd (update_loop cfg e w))) = []
       \<and> replay (new_events w (snd (update_loop cfg e w))) rows = rows"
proof -
  obtain w1 where f: "fetch_routers e w = (Inl ex, w1)"
    using assms by (cases "fetch_routers e w") simp
  with fetch_routers_world [of e w]
  have w1: "w1 = log_event (Http_get (http_get e (trace w))) w"
    by simp
  from f have u: "update_loop cfg e w = (Inl ex, w1)"
    by (simp add: update_loop_def)
  have n: "new_events w w1 = [Http_get (http_get e (trace w))]"
    unfolding w1 by (rule new_eventsI) (simp add: trace_log_event)
  have "http_get e (trace w) \<in> {Unreachable, Bad_json, Unsized_json}"
    using assms fetch_routers_fails [of e w] by blast
  with u n w1 show ?thesis
    by (simp add: db_log_event)
qed

theorem fetch_failure_aborts_tick_witness:
  "fst (fetch_routers (steady_env Bad_json (Exited 0 [] []))
         \<lparr>db = [(''svc.local'', ''r1'')], trace = []\<rparr>) = Inl JSONDecodeError
   \<and> update_loop default_config (steady_env Bad_json (Exited 0 [] []))
         \<lparr>db = [(''svc.local'', ''r1'')], trace = []\<rparr>
       = (Inl JSONDecodeError, \<lparr>db = [(''svc.local'', ''r1'')], trace = [Http_get Bad_json]\<rparr>)"
proof -
  have h: "fst (fetch_routers (steady_env Bad_json (Exited 0 [] []))
         \<lparr>db = [(''svc.local'', ''r1'')], trace = []\<rparr>) = Inl JSONDecodeError"
    by (simp add: fetch_routers_def steady_env_def)
  from fetch_failure_aborts_tick [OF h, of default_config]
  have "fst (update_loop default_config (steady_env Bad_json (Exited 0 [] []))
         \<lparr>db = [(''svc.local'', ''r1'')], trace = []\<rparr>) = Inl JSONDecodeError"
    by blast
  moreover have "snd (update_loop default_config (steady_env Bad_json (Exited 0 [] []))
         \<lparr>db = [(''svc.local'', ''r1'')], trace = []\<rparr>)
       = \<lparr>db = [(''svc.local'', ''r1'')], trace = [Http_get Bad_json]\<rparr>"
    by (simp add: update_loop_def fetch_routers_def steady_env_def log_event_def)
  ultimately show ?thesis
    using h by (simp add: prod_eq_iff)
qed

lemma update_loop_events:
  "\<exists>evs. trace (snd (update_loop cfg e w)) = trace w @ Http_get (http_get e (trace w)) # evs
       \<and> (\<forall>p. all_justified cfg p evs)
       \<and> db (snd (update_loop cfg e w)) = replay evs (db w)
       \<and> filter is_sleep evs = [] \<and> filter is_http_get evs = []"
proof (cases "fst (update_loop cfg e w)")
  case (Inl ex)
  then have "snd (update_loop cfg e w) = log_event (Http_get (http_get e (trace w))) w"
    by (rule raising_tick_world)
  then have "trace (snd (update_loop cfg e w)) = trace w @ Http_get (http_get e (trace w)) # []"
    "db (snd (update_loop cfg e w)) = replay [] (db w)"
    by (simp_all add: log_event_def)
  then show ?thesis
    by (intro exI [of _ "[]"]) simp
next
  case (Inr u)
  let ?w1 = "log_event (Http_get (http_get e (trace w))) w"
  from normal_tick_world [OF Inr] obtain hs where
    u: "snd (update_loop cfg e w)
          = cleanup_each cfg e (old_hostnames hs (update_each cfg e hs ?w1))
              (update_each cfg e hs ?w1)"
    by blast
  let ?w2 = "update_each cfg e hs ?w1"
  let ?w3 = "cleanup_each cfg e (old_hostnames hs ?w2) ?w2"
  obtain evs2 where
    e2: "trace ?w2 = trace ?w1 @ evs2" "\<forall>p. all_justified cfg p evs2"
        "db ?w2 = replay evs2 (db ?w1)" "filter is_sleep evs2 = []" "filter is_http_get evs2 = []"
    using update_each_events [of cfg e hs ?w1] by blast
  obtain evs3 where
    e3: "trace ?w3 = trace ?w2 @ evs3" "\<forall>p. all_justified cfg p evs3"
        "db ?w3 = replay evs3 (db ?w2)" "filter is_sleep evs3 = []" "filter is_http_get evs3 = []"
    using cleanup_each_events [of cfg e "old_hostnames hs ?w2" ?w2] by blast
  have "trace ?w3 = trace w @ Http_get (http_get e (trace w)) # (evs2 @ evs3)"
    using e2(1) e3(1) by (simp add: log_event_def)
  moreover have "\<forall>p. all_justified cfg p (evs2 @ evs3)"
    using all_justified_append e2(2) e3(2) by blast
  moreover have "db ?w3 = replay (evs2 @ evs3) (db w)"
    using e2(3) e3(3) by (simp add: replay_append log_event_def)
  moreover have "filter is_sleep (evs2 @ evs3) = []" "filter is_http_get (evs2 @ evs3) = []"
    using e2(4,5) e3(4,5) by simp_all
  ultimately show ?thesis
    unfolding u by blast
qed

text \<open>
  C8. In the events of one tick, every upsert comes directly after the add transcript of
  the same hostname, and that mutation succeeded; every deletion comes directly after the
  delete transcript of the same hostname, and that mutation succeeded. The table after
  the tick is the table before it with exactly these statements applied, so nothing else
  changes an entry, and a mutation that failed is followed by no statement.
\<close>

theorem store_follows_successful_mutations:
  "trace (snd (update_loop cfg e w)) = trace w @ new_events w (snd (update_loop cfg e w))
   \<and> all_justified cfg None (new_events w (snd (update_loop cfg e w)))
   \<and> db (snd (update_loop cfg e w)) = replay (new_events w (snd (update_loop cfg e w))) (db w)"
proof -
  obtain evs where
    evs: "trace (snd (update_loop cfg e w)) = trace w @ Http_get (http_get e (trace w)) # evs"
         "\<forall>p. all_justified cfg p evs"
         "db (snd (update_loop cfg e w)) = replay evs (db w)"
    using update_loop_events [of cfg e w] by blast
  have n: "new_events w (snd (update_loop cfg e w)) = Http_get (http_get e (trace w)) # evs"
    using evs(1) by (rule new_eventsI)
  show ?thesis
    unfolding n using evs by simp
qed

theorem store_follows_successful_mutations_witness:
  "new_events empty_world (snd (update_loop default_config
       (steady_env (Parsed [Object (web_router ''r1'' ''Host(`svc.local`)'')]) (Exited 0 [] []))
       empty_world))
     = [Http_get (Parsed [Object (web_router ''r1'' ''Host(`svc.local`)'')]),
        Nsupdate (nsupdate_input default_config ''svc.local'' False) (Exited 0 [] []),
        Db_upsert ''svc.local'' ''r1'']
   \<and> all_justified default_config None (new_events empty_world (snd (update_loop default_config
       (steady_env (Parsed [Object (web_router ''r1'' ''Host(`svc.local`)'')]) (Exited 0 [] []))
       empty_world)))
   \<and> db (snd (update_loop default_config
       (steady_env (Parsed [Object (web_router ''r1'' ''Host(`svc.local`)'')]) (Exited 0 [] []))
       empty_world)) = [(''svc.local'', ''r1'')]"
proof -
  have n: "new_events empty_world (snd (update_loop default_config
       (steady_env (Parsed [Object (web_router ''r1'' ''Host(`svc.local`)'')]) (Exited 0 [] []))
       empty_world))
     = [Http_get (Parsed [Object (web_router ''r1'' ''Host(`svc.local`)'')]),
        Nsupdate (nsupdate_input default_config ''svc.local'' False) (Exited 0 [] []),
        Db_upsert ''svc.local'' ''r1'']"
    by code_simp
  from store_follows_successful_mutations [of default_config
       "steady_env (Parsed [Object (web_router ''r1'' ''Host(`svc.local`)'')]) (Exited 0 [] [])"
       empty_world]
  show ?thesis
    unfolding n by (simp add: empty_world_def insert_or_replace_def)
qed

section \<open>The loop\<close>








section \<open>Clean-up with nothing desired\<close>

text \<open>
  No table that the program itself has written holds the empty hostname: the group of the
  pattern has at least one character, upserts take their hostname from an extracted
  record, and the clean-up only deletes.
\<close>

lemma dot_plus_nonempty: "dot_plus s = Some (g, r) \<Longrightarrow> g \<noteq> []"
  by (cases s) (auto split: if_splits option.splits)

lemma finditer_nonempty: "g \<in> set (finditer s) \<Longrightarrow> g \<noteq> []"
proof (induction s rule: finditer.induct)
  case 1
  then show ?case by simp
next
  case (2 c cs)
  show ?case
  proof (cases "match_here (c # cs)")
    case None
    with 2 show ?thesis by simp
  next
    case (Some a)
    obtain g' rest where a: "a = (g', rest)" by (cases a)
    from Some a have "g' \<noteq> []"
      by (auto simp: match_here_def split: option.splits dest: dot_plus_nonempty)
    with 2 Some a show ?thesis by auto
  qed
qed

lemma finditer_no_empty_group: "[] \<notin> set (finditer s)"
  using finditer_nonempty by blast

lemma extract_hostnames_nonempty:
  "extract_hostnames routers = Inr hs \<Longrightarrow> list_all (\<lambda>h. hostname h \<noteq> []) hs"
proof (induction routers arbitrary: hs)
  case Nil
  then show ?case by simp
next
  case (Cons r routers)
  then show ?case
    by (auto simp: list_all_iff finditer_no_empty_group split: option.splits sum.splits)
qed

lemma update_each_nonempty_keys:
  "[] \<notin> fst ` set (db w) \<Longrightarrow> list_all (\<lambda>h. hostname h \<noteq> []) hs
     \<Longrightarrow> [] \<notin> fst ` set (db (update_each cfg e hs w))"
proof (induction hs arbitrary: w)
  case Nil
  then show ?case by simp
next
  case (Cons h hs)
  let ?input = "nsupdate_input cfg (hostname h) False"
  let ?w' = "log_event (Nsupdate ?input (nsupdate e (trace w) ?input)) w"
  let ?w1 = "if succeeded (nsupdate e (trace w) ?input) then update_db h ?w' else ?w'"
  from Cons.prems have "[] \<notin> fst ` set (db ?w1)"
    by (auto simp: update_db_def log_event_def keys_insert_or_replace)
  moreover from Cons.prems have "list_all (\<lambda>h. hostname h \<noteq> []) hs"
    by simp
  ultimately have "[] \<notin> fst ` set (db (update_each cfg e hs ?w1))"
    by (rule Cons.IH)
  then show ?case
    unfolding update_each_Cons Let_def .
qed

lemma cleanup_each_keys: "fst ` set (db (cleanup_each cfg e hs w)) \<subseteq> fst ` set (db w)"
proof (induction hs arbitrary: w)
  case Nil
  show ?case by simp
next
  case (Cons h hs)
  let ?input = "nsupdate_input cfg h True"
  let ?w' = "log_event (Nsupdate ?input (nsupdate e (trace w) ?input)) w"
  let ?w1 = "if succeeded (nsupdate e (trace w) ?input)
             then log_event (Db_delete h) (?w'\<lparr>db := delete_where h (db ?w')\<rparr>) else ?w'"
  have "fst ` set (db ?w1) \<subseteq> fst ` set (db w)"
    by (auto simp: log_event_def delete_where_def)
  with Cons.IH [of ?w1] have "fst ` set (db (cleanup_each cfg e hs ?w1)) \<subseteq> fst ` set (db w)"
    by blast
  then show ?case
    by (simp only: cleanup_each_Cons Let_def)
qed

lemma update_loop_nonempty_keys:
  assumes "[] \<notin> fst ` set (db w)"
  shows "[] \<notin> fst ` set (db (snd (update_loop cfg e w)))"
proof (cases "fst (update_loop cfg e w)")
  case (Inl ex)
  with raising_tick_world [OF Inl] assms show ?thesis
    by (simp add: db_log_event)
next
  case (Inr u)
  let ?w1 = "log_event (Http_get (http_get e (trace w))) w"
  from normal_tick_world [OF Inr] obtain filtered hs where
    x: "extract_hostnames filtered = Inr hs" and
    u: "snd (update_loop cfg e w)
          = cleanup_each cfg e (old_hostnames hs (update_each cfg e hs ?w1))
              (update_each cfg e hs ?w1)"
    by blast
  let ?w2 = "update_each cfg e hs ?w1"
  have "list_all (\<lambda>h. hostname h \<noteq> []) hs"
    using x by (rule extract_hostnames_nonempty)
  with assms have "[] \<notin> fst ` set (db ?w2)"
    by (intro update_each_nonempty_keys) (simp_all add: db_log_event)
  with cleanup_each_keys [of cfg e "old_hostnames hs ?w2" ?w2]
  have "[] \<notin> fst ` set (db (cleanup_each cfg e (old_hostnames hs ?w2) ?w2))"
    by blast
  then show ?thesis
    unfolding u .
qed

text \<open>
  For a table without the empty hostname and an empty list of desired records, the
  clean-up selects every persisted hostname, in the order of the index, hands one delete
  transcript per selected hostname to the transport, and, when every one of these
  mutations succeeded, leaves the table empty.
\<close>

lemma cleanup_with_nothing_desired:
  assumes "[] \<notin> fst ` set (db w)"
      and "list_all succeeded (outcomes (new_events w (cleanup_old_dns_entries cfg e [] w)))"
  shows "old_hostnames [] w = sort (map fst (db w))
       \<and> transcripts (new_events w (cleanup_old_dns_entries cfg e [] w))
           = map (\<lambda>h. nsupdate_input cfg h True) (sort (map fst (db w)))
       \<and> db (cleanup_old_dns_entries cfg e [] w) = []"
proof -
  have "filter (\<lambda>h. h \<noteq> []) (sort (map fst (db w))) = sort (map fst (db w))"
    using assms(1) by (intro filter_True) (force simp: image_iff)
  then have old: "old_hostnames [] w = sort (map fst (db w))"
    by (simp add: old_hostnames_def select_not_in_def)
  let ?hs = "sort (map fst (db w))"
  let ?w' = "cleanup_each cfg e ?hs w"
  have c: "cleanup_old_dns_entries cfg e [] w = ?w'"
    by (simp add: cleanup_old_dns_entries_def old)
  obtain evs where
    evs: "trace ?w' = trace w @ evs"
         "transcripts evs = map (\<lambda>h. nsupdate_input cfg h True) ?hs"
         "list_all succeeded (outcomes evs) \<longrightarrow>
            db ?w' = filter (\<lambda>row. fst row \<notin> set ?hs) (db w)"
    using cleanup_each_events [of cfg e ?hs w] by blast
  have n: "new_events w ?w' = evs"
    using evs(1) by (rule new_eventsI)
  from assms(2) have "list_all succeeded (outcomes evs)"
    by (simp only: c n)
  with evs(3) have "db ?w' = filter (\<lambda>row. fst row \<notin> set ?hs) (db w)"
    by blast
  also have "\<dots> = []"
    by (simp add: filter_empty_conv)
  finally have "db ?w' = []" .
  with old evs(2) show ?thesis
    by (simp add: c n)
qed


end
